theory Spec2Isabelle
  imports Complex_Main
begin

section \<open>Student performance analysis: statistics and chart composition\<close>

text \<open>
  A shallow embedding of \<^verbatim>\<open>analyze_student_performance.py\<close>. Python's \<^verbatim>\<open>float\<close> is
  idealised as \<^typ>\<open>real\<close>: every result below is about exact real arithmetic, and the
  rounding of binary64 operations is outside the model. Exceptions are values of
  \<open>py_error\<close>, returned on the left of a sum.
\<close>

subsection \<open>Python primitives\<close>

datatype py_error = IndexError | KeyError | StatisticsError | ValueError

text \<open>Subscription \<^verbatim>\<open>xs[i]\<close> of a list: \<open>-1\<close> is the last element, and an index outside
  \<open>[-len, len)\<close> is an IndexError.\<close>

definition getitem :: "'a list \<Rightarrow> int \<Rightarrow> py_error + 'a" where
  "getitem xs i =
     (if 0 \<le> i \<and> i < int (length xs) then Inr (xs ! nat i)
      else if i < 0 \<and> - int (length xs) \<le> i then Inr (xs ! nat (int (length xs) + i))
      else Inl IndexError)"

text \<open>\<^verbatim>\<open>int(v)\<close> on a float truncates towards zero.\<close>

definition py_int :: "real \<Rightarrow> int" where
  "py_int v = (if 0 \<le> v then \<lfloor>v\<rfloor> else \<lceil>v\<rceil>)"

text \<open>\<^verbatim>\<open>statistics.mean\<close>: the arithmetic mean, StatisticsError on no data.\<close>

definition mean :: "real list \<Rightarrow> py_error + real" where
  "mean xs = (if xs = [] then Inl StatisticsError else Inr (sum_list xs / real (length xs)))"

text \<open>\<^verbatim>\<open>math.sqrt\<close>: a negative argument is a domain error.\<close>

definition py_sqrt :: "real \<Rightarrow> py_error + real" where
  "py_sqrt v = (if v < 0 then Inl ValueError else Inr (sqrt v))"

text \<open>Sequencing of a computation that may raise.\<close>

definition bind :: "py_error + 'a \<Rightarrow> ('a \<Rightarrow> py_error + 'b) \<Rightarrow> py_error + 'b" where
  "bind m f = (case m of Inl e \<Rightarrow> Inl e | Inr v \<Rightarrow> f v)"

text \<open>A comprehension whose element expression may raise: the first error wins.\<close>

fun traverse :: "('a \<Rightarrow> py_error + 'b) \<Rightarrow> 'a list \<Rightarrow> py_error + 'b list" where
  "traverse f [] = Inr []"
| "traverse f (x # xs) = bind (f x) (\<lambda>y. bind (traverse f xs) (\<lambda>ys. Inr (y # ys)))"

subsection \<open>Quantile and box statistics\<close>

definition quantile :: "real list \<Rightarrow> real \<Rightarrow> py_error + real" where
  "quantile sorted_values q =
     (let index = real_of_int (int (length sorted_values) - 1) * q;
          lower = \<lfloor>index\<rfloor>;
          upper = \<lceil>index\<rceil>
      in if lower = upper then getitem sorted_values (py_int index)
         else bind (getitem sorted_values lower) (\<lambda>lo.
              bind (getitem sorted_values upper) (\<lambda>up.
              Inr (lo + (up - lo) * (index - real_of_int lower)))))"

record box =
  bs_min :: real
  bs_q1 :: real
  bs_median :: real
  bs_q3 :: real
  bs_max :: real

text \<open>The dictionary display of \<^verbatim>\<open>box_stats\<close>, its entries evaluated in order.\<close>

definition box_of_sorted :: "real list \<Rightarrow> py_error + box" where
  "box_of_sorted sorted_values =
     bind (getitem sorted_values 0) (\<lambda>mn.
     bind (quantile sorted_values (1/4)) (\<lambda>a.
     bind (quantile sorted_values (1/2)) (\<lambda>m.
     bind (quantile sorted_values (3/4)) (\<lambda>b.
     bind (getitem sorted_values (-1)) (\<lambda>mx.
     Inr \<lparr>bs_min = mn, bs_q1 = a, bs_median = m, bs_q3 = b, bs_max = mx\<rparr>)))))"

definition box_stats :: "real list \<Rightarrow> py_error + box" where
  "box_stats vs = (let sorted_values = sort vs in box_of_sorted sorted_values)"

text \<open>
  The value of a sorted sequence at a real rank \<open>r\<close>: the element at \<open>r\<close> when \<open>r\<close> is
  whole, the linear interpolation of its two neighbours otherwise. It is used to state
  what \<open>quantile\<close> computes.
\<close>

definition rank_value :: "real list \<Rightarrow> real \<Rightarrow> real" where
  "rank_value xs r =
     xs ! nat \<lfloor>r\<rfloor> + (xs ! nat \<lceil>r\<rceil> - xs ! nat \<lfloor>r\<rfloor>) * (r - real_of_int \<lfloor>r\<rfloor>)"

subsection \<open>The caller's list and the sorted copy\<close>

text \<open>
  Python passes lists by reference. A heap is the sequence of list objects allocated so
  far, an address is a position in it. \<^verbatim>\<open>sorted(values)\<close> allocates a new list and
  leaves its argument alone (unlike \<^verbatim>\<open>values.sort()\<close>); \<open>box_stats_heap\<close> is
  \<^verbatim>\<open>box_stats\<close> with the heap made explicit.
\<close>

type_synonym heap = "real list list"

definition py_sorted :: "nat \<Rightarrow> heap \<Rightarrow> nat \<times> heap" where
  "py_sorted a h = (length h, h @ [sort (h ! a)])"

definition box_stats_heap :: "nat \<Rightarrow> heap \<Rightarrow> (py_error + box) \<times> heap" where
  "box_stats_heap vs h =
     (case py_sorted vs h of (sorted_values, h') \<Rightarrow> (box_of_sorted (h' ! sorted_values), h'))"

subsection \<open>Pearson correlation\<close>

definition pearson :: "real list \<Rightarrow> real list \<Rightarrow> py_error + real" where
  "pearson x y =
     bind (mean x) (\<lambda>mean_x.
     bind (mean y) (\<lambda>mean_y.
     let numerator = (\<Sum>(a, b)\<leftarrow>zip x y. (a - mean_x) * (b - mean_y)) in
     bind (py_sqrt (\<Sum>a\<leftarrow>x. (a - mean_x)\<^sup>2)) (\<lambda>denominator_x.
     bind (py_sqrt (\<Sum>b\<leftarrow>y. (b - mean_y)\<^sup>2)) (\<lambda>denominator_y.
     if denominator_x = 0 \<or> denominator_y = 0 then Inr 0
     else Inr (numerator / (denominator_x * denominator_y))))))"

text \<open>
  The quantities \<open>pearson\<close> works with, named to state its results: the mean, the sum of
  squared deviations from the mean (zero exactly when the sequence has zero variance), and
  the sum of the products of paired deviations, which \<^verbatim>\<open>zip\<close> cuts at the shorter length.
\<close>

definition avg :: "real list \<Rightarrow> real" where
  "avg xs = sum_list xs / real (length xs)"

definition sq_dev :: "real list \<Rightarrow> real" where
  "sq_dev xs = (\<Sum>a\<leftarrow>xs. (a - avg xs)\<^sup>2)"

definition co_dev :: "real list \<Rightarrow> real list \<Rightarrow> real" where
  "co_dev x y = (\<Sum>(a, b)\<leftarrow>zip x y. (a - avg x) * (b - avg y))"

subsection \<open>Rows of the dataset\<close>

text \<open>
  \<^verbatim>\<open>load_data\<close> builds every row as a dictionary with the same seven keys: two strings
  and five floats. The row is a record, and the five numeric keys \<^verbatim>\<open>"Attendance"\<close>,
  \<^verbatim>\<open>"Math"\<close>, \<^verbatim>\<open>"Science"\<close>, \<^verbatim>\<open>"English"\<close>, \<^verbatim>\<open>"History"\<close> are the
  constructors of \<open>column\<close>; \<open>cell r c\<close> is \<^verbatim>\<open>float(r[c])\<close>.
\<close>

record row =
  student_id :: string
  gender :: string
  attendance :: real
  math :: real
  science :: real
  english :: real
  history :: real

datatype column = Attendance | Math | Science | English | History

fun cell :: "row \<Rightarrow> column \<Rightarrow> real" where
  "cell r Attendance = attendance r"
| "cell r Math = math r"
| "cell r Science = science r"
| "cell r English = english r"
| "cell r History = history r"

fun column_name :: "column \<Rightarrow> string" where
  "column_name Attendance = ''Attendance''"
| "column_name Math = ''Math''"
| "column_name Science = ''Science''"
| "column_name English = ''English''"
| "column_name History = ''History''"

definition SUBJECT_COLUMNS :: "column list" where
  "SUBJECT_COLUMNS = [Math, Science, English, History]"

text \<open>
  A dictionary built by a comprehension is an association list in insertion order;
  \<^verbatim>\<open>d[k]\<close> raises KeyError on a missing key.
\<close>

definition dict_get :: "('k \<times> 'v) list \<Rightarrow> 'k \<Rightarrow> py_error + 'v" where
  "dict_get d k = (case map_of d k of None \<Rightarrow> Inl KeyError | Some v \<Rightarrow> Inr v)"

subsection \<open>Correlation matrix of the heatmap\<close>

definition correlation_matrix :: "row list \<Rightarrow> py_error + (column \<times> (column \<times> real) list) list" where
  "correlation_matrix rows =
     (let fields = Attendance # SUBJECT_COLUMNS in
      traverse (\<lambda>a.
        bind (traverse (\<lambda>b.
                bind (pearson (map (\<lambda>r. cell r a) rows) (map (\<lambda>r. cell r b) rows))
                     (\<lambda>v. Inr (b, v))) fields)
             (\<lambda>inner. Inr (a, inner))) fields)"

text \<open>\<^verbatim>\<open>matrix[row_name][col_name]\<close>\<close>

definition matrix_entry :: "(column \<times> (column \<times> real) list) list \<Rightarrow> column \<Rightarrow> column \<Rightarrow> py_error + real" where
  "matrix_entry matrix row_name col_name =
     bind (dict_get matrix row_name) (\<lambda>inner. dict_get inner col_name)"

subsection \<open>Grouped averages\<close>

text \<open>
  The nested comprehension of \<^verbatim>\<open>plot_subject_wise_comparison\<close>, with the list of group
  labels as a parameter; the source calls it at \<^verbatim>\<open>["Female", "Male"]\<close>.
\<close>

definition group_values :: "row list \<Rightarrow> string \<Rightarrow> column \<Rightarrow> real list" where
  "group_values rows g subject = [cell r subject. r \<leftarrow> rows, gender r = g]"

definition group_averages :: "string list \<Rightarrow> row list \<Rightarrow> py_error + (string \<times> (column \<times> real) list) list" where
  "group_averages genders rows =
     traverse (\<lambda>g.
       bind (traverse (\<lambda>subject.
               bind (mean (group_values rows g subject)) (\<lambda>v. Inr (subject, v)))
             SUBJECT_COLUMNS)
            (\<lambda>inner. Inr (g, inner))) genders"

definition averages :: "row list \<Rightarrow> py_error + (string \<times> (column \<times> real) list) list" where
  "averages rows = (let genders = [''Female'', ''Male''] in group_averages genders rows)"

subsection \<open>Box-plot composer\<close>

text \<open>
  The drawing primitives appended to \<^verbatim>\<open>body\<close>, with their attributes as values: the
  rendering of numbers into the markup text is not modelled. A line carries its stroke
  and its optional stroke width, a rectangle its fill and stroke, a text its anchor,
  font size and content.
\<close>

datatype element =
    Line real real real real string "nat option"
  | Rect real real real real string string
  | Text real real string nat string

text \<open>The scale of \<^verbatim>\<open>plot_boxplots\<close>, with its constants.\<close>

definition y_scale :: "real \<Rightarrow> real" where
  "y_scale v =
     (let height = 520; margin_bottom = 70; margin_top = 60;
          plot_height = height - margin_bottom - margin_top;
          y_min = 30; y_max = 100
      in margin_top + (y_max - v) / (y_max - y_min) * plot_height)"

definition colors :: "string list" where
  "colors = [''#6baed6'', ''#9ecae1'', ''#74c476'', ''#fd8d3c'']"

text \<open>One round of the loop over \<^verbatim>\<open>enumerate(SUBJECT_COLUMNS)\<close>: the elements it appends.\<close>

definition boxplot_subject :: "nat \<Rightarrow> column \<Rightarrow> row list \<Rightarrow> py_error + element list" where
  "boxplot_subject idx subject rows =
     (let width = 900; margin_left = 90; margin_bottom = 70; margin_top = 60; height = 520;
          plot_width = width - 150; plot_height = height - margin_bottom - margin_top;
          spacing = plot_width / real (length SUBJECT_COLUMNS);
          vs = map (\<lambda>r. cell r subject) rows
      in bind (box_stats vs) (\<lambda>stats.
         let x_center = margin_left + spacing * real idx + spacing / 2;
             box_width = 80;
             y_q1 = y_scale (bs_q1 stats); y_q3 = y_scale (bs_q3 stats);
             y_median = y_scale (bs_median stats);
             y_min_v = y_scale (bs_min stats);
             y_max_v = y_scale (bs_max stats)
         in bind (getitem colors (int idx)) (\<lambda>color. Inr
           [Line x_center y_max_v x_center y_q3 ''black'' None,
            Line x_center y_q1 x_center y_min_v ''black'' None,
            Rect (x_center - box_width / 2) y_q3 box_width (max 1 (y_q1 - y_q3)) color ''black'',
            Line (x_center - box_width / 2) y_median (x_center + box_width / 2) y_median
                 ''black'' (Some 2),
            Line (x_center - 20) y_max_v (x_center + 20) y_max_v ''black'' None,
            Line (x_center - 20) y_min_v (x_center + 20) y_min_v ''black'' None,
            Text x_center (margin_top + plot_height + 30) ''middle'' 13 (column_name subject)])))"

text \<open>The whole loop: the elements of all subjects, in order.\<close>

definition boxplot_subjects :: "row list \<Rightarrow> py_error + element list" where
  "boxplot_subjects rows =
     bind (traverse (\<lambda>(idx, subject). boxplot_subject idx subject rows)
                    (zip [0 ..< length SUBJECT_COLUMNS] SUBJECT_COLUMNS))
          (\<lambda>parts. Inr (concat parts))"



subsection \<open>Example data\<close>

text \<open>The three-row dataset of the end-to-end scenario.\<close>

definition rows3 :: "row list" where
  "rows3 =
     [\<lparr>student_id = ''S1'', gender = ''Female'', attendance = 95,
       math = 90, science = 80, english = 70, history = 60\<rparr>,
      \<lparr>student_id = ''S2'', gender = ''Male'', attendance = 85,
       math = 70, science = 60, english = 50, history = 40\<rparr>,
      \<lparr>student_id = ''S3'', gender = ''Female'', attendance = 90,
       math = 80, science = 70, english = 60, history = 50\<rparr>]"

subsection \<open>Quantile: helper facts\<close>

lemma getitem_in_range:
  "0 \<le> i \<Longrightarrow> i < int (length xs) \<Longrightarrow> getitem xs i = Inr (xs ! nat i)"
  by (simp add: getitem_def)

lemma rank_bounds:
  assumes "xs \<noteq> []" "0 \<le> q" "q \<le> 1"
  shows "0 \<le> real_of_int (int (length xs) - 1) * q"
    and "real_of_int (int (length xs) - 1) * q \<le> real_of_int (int (length xs) - 1)"
proof -
  have n: "0 \<le> real_of_int (int (length xs) - 1)"
    using assms(1) by (cases xs) simp_all
  show "0 \<le> real_of_int (int (length xs) - 1) * q"
    using n assms(2) by simp
  show "real_of_int (int (length xs) - 1) * q \<le> real_of_int (int (length xs) - 1)"
    using mult_left_mono [OF assms(3) n] by simp
qed

lemma floor_ceiling_in_range:
  assumes "0 \<le> r" "r \<le> real_of_int (int (length xs) - 1)"
  shows "0 \<le> \<lfloor>r\<rfloor>" "\<lfloor>r\<rfloor> < int (length xs)" "0 \<le> \<lceil>r\<rceil>" "\<lceil>r\<rceil> < int (length xs)"
proof -
  show "0 \<le> \<lfloor>r\<rfloor>" using assms(1) by simp
  have "\<lfloor>r\<rfloor> \<le> \<lfloor>real_of_int (int (length xs) - 1)\<rfloor>"
    using assms(2) by (rule floor_mono)
  then have "\<lfloor>r\<rfloor> \<le> int (length xs) - 1" by (simp only: floor_of_int)
  then show "\<lfloor>r\<rfloor> < int (length xs)" by simp
  have "0 \<le> \<lfloor>r\<rfloor>" using assms(1) by simp
  also have "\<lfloor>r\<rfloor> \<le> \<lceil>r\<rceil>" by (rule floor_le_ceiling)
  finally show "0 \<le> \<lceil>r\<rceil>" .
  have "\<lceil>r\<rceil> \<le> \<lceil>real_of_int (int (length xs) - 1)\<rceil>"
    using assms(2) by (rule ceiling_mono)
  then have "\<lceil>r\<rceil> \<le> int (length xs) - 1" by (simp only: ceiling_of_int)
  then show "\<lceil>r\<rceil> < int (length xs)" by simp
qed

lemma py_int_integer: "\<lfloor>r\<rfloor> = \<lceil>r\<rceil> \<Longrightarrow> py_int r = \<lfloor>r\<rfloor>"
  by (simp add: py_int_def)

lemma floor_eq_ceiling_iff: "\<lfloor>r::real\<rfloor> = \<lceil>r\<rceil> \<longleftrightarrow> r \<in> \<int>"
  by (metis Ints_of_int ceiling_of_int floor_of_int Ints_cases ceiling_altdef floor_eq_iff le_of_int_ceiling of_int_floor_le antisym)

lemma quantile_is_rank_value:
  assumes "xs \<noteq> []" "0 \<le> q" "q \<le> 1"
  shows "quantile xs q = Inr (rank_value xs (real_of_int (int (length xs) - 1) * q))"
proof -
  define r where "r = real_of_int (int (length xs) - 1) * q"
  have r: "0 \<le> r" "r \<le> real_of_int (int (length xs) - 1)"
    using rank_bounds [OF assms] by (simp_all add: r_def)
  note fc = floor_ceiling_in_range [OF r]
  have q: "quantile xs q =
      (if \<lfloor>r\<rfloor> = \<lceil>r\<rceil> then getitem xs (py_int r)
       else bind (getitem xs \<lfloor>r\<rfloor>) (\<lambda>lo. bind (getitem xs \<lceil>r\<rceil>) (\<lambda>up.
              Inr (lo + (up - lo) * (r - real_of_int \<lfloor>r\<rfloor>)))))"
    unfolding quantile_def Let_def r_def by (rule refl)
  have "quantile xs q = Inr (rank_value xs r)"
  proof (cases "\<lfloor>r\<rfloor> = \<lceil>r\<rceil>")
    case True
    then have "r = real_of_int \<lfloor>r\<rfloor>"
      by (metis floor_eq_ceiling_iff Ints_cases floor_of_int)
    then have "rank_value xs r = xs ! nat \<lfloor>r\<rfloor>" by (simp add: rank_value_def)
    moreover have "quantile xs q = getitem xs \<lfloor>r\<rfloor>"
      using True by (simp add: q py_int_integer)
    ultimately show ?thesis using fc by (simp add: getitem_in_range)
  next
    case False
    then show ?thesis using fc
      by (simp add: q getitem_in_range bind_def rank_value_def)
  qed
  then show ?thesis by (simp only: r_def)
qed


lemma sorted_nth_int:
  assumes "sorted xs" "0 \<le> i" "i \<le> j" "j < int (length xs)"
  shows "xs ! nat i \<le> xs ! nat j"
proof -
  have le: "nat i \<le> nat j" using assms(3) by (rule nat_mono)
  have lt: "nat j < length xs" using assms(2,3,4) by (simp add: nat_less_iff)
  show ?thesis using assms(1) le lt by (rule sorted_nth_mono)
qed

lemma rank_value_bounds:
  assumes "sorted xs" "0 \<le> r" "r \<le> real_of_int (int (length xs) - 1)"
  shows "xs ! nat \<lfloor>r\<rfloor> \<le> rank_value xs r" "rank_value xs r \<le> xs ! nat \<lceil>r\<rceil>"
proof -
  note fc = floor_ceiling_in_range [OF assms(2,3)]
  have ab: "xs ! nat \<lfloor>r\<rfloor> \<le> xs ! nat \<lceil>r\<rceil>"
    using assms(1) fc(1) floor_le_ceiling fc(4) by (rule sorted_nth_int)
  define t where "t = r - real_of_int \<lfloor>r\<rfloor>"
  have t: "0 \<le> t" "t \<le> 1" unfolding t_def by linarith+
  have rv: "rank_value xs r = xs ! nat \<lfloor>r\<rfloor> + (xs ! nat \<lceil>r\<rceil> - xs ! nat \<lfloor>r\<rfloor>) * t"
    by (simp add: rank_value_def t_def)
  have "0 \<le> (xs ! nat \<lceil>r\<rceil> - xs ! nat \<lfloor>r\<rfloor>) * t" using ab t by simp
  then show "xs ! nat \<lfloor>r\<rfloor> \<le> rank_value xs r" by (simp add: rv)
  have "(xs ! nat \<lceil>r\<rceil> - xs ! nat \<lfloor>r\<rfloor>) * t \<le> (xs ! nat \<lceil>r\<rceil> - xs ! nat \<lfloor>r\<rfloor>) * 1"
    using ab t by (intro mult_left_mono) simp_all
  then show "rank_value xs r \<le> xs ! nat \<lceil>r\<rceil>" by (simp add: rv)
qed

lemma rank_value_mono:
  assumes "sorted xs" "0 \<le> r" "r \<le> s" "s \<le> real_of_int (int (length xs) - 1)"
  shows "rank_value xs r \<le> rank_value xs s"
proof (cases "\<lceil>r\<rceil> \<le> \<lfloor>s\<rfloor>")
  case True
  have r: "r \<le> real_of_int (int (length xs) - 1)" and s: "0 \<le> s" using assms by linarith+
  note fs = floor_ceiling_in_range [OF s assms(4)]
  note fr = floor_ceiling_in_range [OF assms(2) r]
  have "rank_value xs r \<le> xs ! nat \<lceil>r\<rceil>" by (rule rank_value_bounds [OF assms(1,2) r])
  also have "xs ! nat \<lceil>r\<rceil> \<le> xs ! nat \<lfloor>s\<rfloor>"
    using assms(1) fr(3) True fs(2) by (rule sorted_nth_int)
  also have "xs ! nat \<lfloor>s\<rfloor> \<le> rank_value xs s" by (rule rank_value_bounds [OF assms(1) s assms(4)])
  finally show ?thesis .
next
  case False
  have r: "r \<le> real_of_int (int (length xs) - 1)" and s: "0 \<le> s" using assms by linarith+
  note fs = floor_ceiling_in_range [OF s assms(4)]
  note fr = floor_ceiling_in_range [OF assms(2) r]
  have "\<lfloor>r\<rfloor> \<le> \<lfloor>s\<rfloor>" using assms(3) by (rule floor_mono)
  moreover have "\<lceil>r\<rceil> \<le> \<lfloor>r\<rfloor> + 1" by (simp add: ceiling_altdef)
  ultimately have fl: "\<lfloor>s\<rfloor> = \<lfloor>r\<rfloor>" and cr: "\<lceil>r\<rceil> = \<lfloor>r\<rfloor> + 1" using False by linarith+
  have "\<lceil>s\<rceil> = \<lfloor>r\<rfloor> + 1"
  proof -
    have "\<lceil>r\<rceil> \<le> \<lceil>s\<rceil>" using assms(3) by (rule ceiling_mono)
    moreover have "\<lceil>s\<rceil> \<le> \<lfloor>s\<rfloor> + 1" by (simp add: ceiling_altdef)
    ultimately show ?thesis using fl cr by linarith
  qed
  then have cs: "\<lceil>s\<rceil> = \<lceil>r\<rceil>" using cr by simp
  have "\<lceil>r\<rceil> < int (length xs)" using fs(4) cs by simp
  with assms(1) fr(1) floor_le_ceiling have ab: "xs ! nat \<lfloor>r\<rfloor> \<le> xs ! nat \<lceil>r\<rceil>"
    by (rule sorted_nth_int)
  have "(xs ! nat \<lceil>r\<rceil> - xs ! nat \<lfloor>r\<rfloor>) * (r - real_of_int \<lfloor>r\<rfloor>)
        \<le> (xs ! nat \<lceil>r\<rceil> - xs ! nat \<lfloor>r\<rfloor>) * (s - real_of_int \<lfloor>r\<rfloor>)"
    using ab assms(3) by (intro mult_left_mono) simp_all
  then show ?thesis by (simp add: rank_value_def fl cs)
qed


lemma rank_value_integer: "r \<in> \<int> \<Longrightarrow> rank_value xs r = xs ! nat \<lfloor>r\<rfloor>"
  by (auto simp: rank_value_def elim!: Ints_cases)

lemma ceiling_non_integer:
  fixes r :: real
  assumes "0 \<le> r" and "r \<notin> \<int>"
  shows "nat \<lceil>r\<rceil> = Suc (nat \<lfloor>r\<rfloor>)"
proof -
  have "r \<noteq> real_of_int \<lfloor>r\<rfloor>" using assms(2) by (metis Ints_of_int)
  then show ?thesis using assms(1) by (simp add: ceiling_altdef nat_add_distrib)
qed

subsection \<open>C1: what quantile returns\<close>

text \<open>
  C1. For an ascending sequence of \<open>N \<ge> 1\<close> reals and \<open>q\<close> in \<open>[0, 1]\<close>, let the rank be
  \<open>(N - 1) * q\<close>. When the rank is whole, \<open>quantile\<close> returns the element at the rank.
  Otherwise it returns the element below the rank plus the fractional part of the rank
  times the step to the next element, and the result lies between these two elements.
  \<open>quantile xs 0\<close> is the first element and \<open>quantile xs 1\<close> the last.
\<close>

theorem quantile_rank:
  assumes "sorted xs" and "xs \<noteq> []" and "0 \<le> q" and "q \<le> 1"
  shows "(real_of_int (int (length xs) - 1) * q \<in> \<int> \<longrightarrow>
            quantile xs q = Inr (xs ! nat \<lfloor>real_of_int (int (length xs) - 1) * q\<rfloor>))
       \<and> (real_of_int (int (length xs) - 1) * q \<notin> \<int> \<longrightarrow>
            (\<exists>v. quantile xs q = Inr v
               \<and> Suc (nat \<lfloor>real_of_int (int (length xs) - 1) * q\<rfloor>) < length xs
               \<and> v = xs ! nat \<lfloor>real_of_int (int (length xs) - 1) * q\<rfloor>
                     + (xs ! Suc (nat \<lfloor>real_of_int (int (length xs) - 1) * q\<rfloor>)
                        - xs ! nat \<lfloor>real_of_int (int (length xs) - 1) * q\<rfloor>)
                       * frac (real_of_int (int (length xs) - 1) * q)
               \<and> xs ! nat \<lfloor>real_of_int (int (length xs) - 1) * q\<rfloor> \<le> v
               \<and> v \<le> xs ! Suc (nat \<lfloor>real_of_int (int (length xs) - 1) * q\<rfloor>)))
       \<and> quantile xs 0 = Inr (xs ! 0)
       \<and> quantile xs 1 = Inr (xs ! (length xs - 1))"
proof -
  define r where "r = real_of_int (int (length xs) - 1) * q"
  have r: "0 \<le> r" "r \<le> real_of_int (int (length xs) - 1)"
    using rank_bounds [OF assms(2-4)] by (simp_all add: r_def)
  note fc = floor_ceiling_in_range [OF r]
  have qv: "quantile xs q = Inr (rank_value xs r)"
    unfolding r_def by (rule quantile_is_rank_value [OF assms(2-4)])
  have int_case: "r \<in> \<int> \<longrightarrow> quantile xs q = Inr (xs ! nat \<lfloor>r\<rfloor>)"
    by (simp add: qv rank_value_integer)
  have frac_case: "r \<notin> \<int> \<longrightarrow> (\<exists>v. quantile xs q = Inr v
               \<and> Suc (nat \<lfloor>r\<rfloor>) < length xs
               \<and> v = xs ! nat \<lfloor>r\<rfloor> + (xs ! Suc (nat \<lfloor>r\<rfloor>) - xs ! nat \<lfloor>r\<rfloor>) * frac r
               \<and> xs ! nat \<lfloor>r\<rfloor> \<le> v \<and> v \<le> xs ! Suc (nat \<lfloor>r\<rfloor>))"
  proof
    assume ni: "r \<notin> \<int>"
    have c: "nat \<lceil>r\<rceil> = Suc (nat \<lfloor>r\<rfloor>)" by (rule ceiling_non_integer [OF r(1) ni])
    have "nat \<lceil>r\<rceil> < length xs" using fc(3,4) by (simp add: nat_less_iff)
    then have lt: "Suc (nat \<lfloor>r\<rfloor>) < length xs" by (simp add: c)
    have v: "rank_value xs r = xs ! nat \<lfloor>r\<rfloor> + (xs ! Suc (nat \<lfloor>r\<rfloor>) - xs ! nat \<lfloor>r\<rfloor>) * frac r"
      by (simp add: rank_value_def c frac_def)
    have lo: "xs ! nat \<lfloor>r\<rfloor> \<le> rank_value xs r" and hi: "rank_value xs r \<le> xs ! nat \<lceil>r\<rceil>"
      by (rule rank_value_bounds [OF assms(1) r])+
    show "\<exists>v. quantile xs q = Inr v
               \<and> Suc (nat \<lfloor>r\<rfloor>) < length xs
               \<and> v = xs ! nat \<lfloor>r\<rfloor> + (xs ! Suc (nat \<lfloor>r\<rfloor>) - xs ! nat \<lfloor>r\<rfloor>) * frac r
               \<and> xs ! nat \<lfloor>r\<rfloor> \<le> v \<and> v \<le> xs ! Suc (nat \<lfloor>r\<rfloor>)"
      using qv lt v lo hi by (simp add: c)
  qed
  have q0: "quantile xs 0 = Inr (xs ! 0)"
    using quantile_is_rank_value [OF assms(2), of 0] by (simp add: rank_value_def)
  have "rank_value xs (real_of_int (int (length xs) - 1)) = xs ! (length xs - 1)"
    by (simp add: rank_value_integer nat_diff_distrib')
  then have q1: "quantile xs 1 = Inr (xs ! (length xs - 1))"
    using quantile_is_rank_value [OF assms(2), of 1] by simp
  show ?thesis
    using int_case frac_case q0 q1 unfolding r_def by (intro conjI)
qed

theorem quantile_rank_witness:
  "sorted [70, 80, 90 :: real] \<and> quantile [70, 80, 90] (1/4) = Inr 75
   \<and> quantile [70, 80, 90] (1/2) = Inr 80
   \<and> quantile [70, 80, 90] 0 = Inr 70 \<and> quantile [70, 80, 90] 1 = Inr 90"
proof -
  have h: "sorted [70, 80, 90 :: real]" "[70, 80, 90 :: real] \<noteq> []" by simp_all
  have f: "(1/2 :: real) \<notin> \<int>" by simp
  have a: "(0::real) \<le> 1/4" "(1/4::real) \<le> 1" "(0::real) \<le> 1/2" "(1/2::real) \<le> 1" by simp_all
  show ?thesis
    using quantile_rank [OF h a(1,2)] quantile_rank [OF h a(3,4)] f
    by (simp add: frac_def)
qed

subsection \<open>C2: the five statistics are ordered\<close>

lemma getitem_first: "xs \<noteq> [] \<Longrightarrow> getitem xs 0 = Inr (xs ! 0)"
  by (simp add: getitem_def)

lemma getitem_last: "xs \<noteq> [] \<Longrightarrow> getitem xs (- 1) = Inr (xs ! (length xs - 1))"
  by (cases xs) (simp_all add: getitem_def)

lemma box_of_sorted_ordered:
  assumes "sorted xs" and "xs \<noteq> []"
  shows "\<exists>b. box_of_sorted xs = Inr b
            \<and> bs_min b \<le> bs_q1 b \<and> bs_q1 b \<le> bs_median b
            \<and> bs_median b \<le> bs_q3 b \<and> bs_q3 b \<le> bs_max b"
proof -
  define n where "n = real_of_int (int (length xs) - 1)"
  have n: "0 \<le> n" using assms(2) by (cases xs) (simp_all add: n_def)
  have q1: "quantile xs (1/4) = Inr (rank_value xs (n * (1/4)))"
    unfolding n_def by (rule quantile_is_rank_value [OF assms(2)]) simp_all
  have q2: "quantile xs (1/2) = Inr (rank_value xs (n * (1/2)))"
    unfolding n_def by (rule quantile_is_rank_value [OF assms(2)]) simp_all
  have q3: "quantile xs (3/4) = Inr (rank_value xs (n * (3/4)))"
    unfolding n_def by (rule quantile_is_rank_value [OF assms(2)]) simp_all
  have r0: "rank_value xs 0 = xs ! 0" by (simp add: rank_value_def)
  have rn: "rank_value xs n = xs ! (length xs - 1)"
    unfolding n_def by (simp add: rank_value_integer nat_diff_distrib')
  have le: "n \<le> real_of_int (int (length xs) - 1)" by (simp add: n_def)
  have a: "rank_value xs 0 \<le> rank_value xs (n * (1/4))"
    using assms(1) _ _ _ by (rule rank_value_mono) (use n le in simp_all)
  have b: "rank_value xs (n * (1/4)) \<le> rank_value xs (n * (1/2))"
    using assms(1) _ _ _ by (rule rank_value_mono) (use n le in simp_all)
  have c: "rank_value xs (n * (1/2)) \<le> rank_value xs (n * (3/4))"
    using assms(1) _ _ _ by (rule rank_value_mono) (use n le in simp_all)
  have d: "rank_value xs (n * (3/4)) \<le> rank_value xs n"
    using assms(1) _ _ _ by (rule rank_value_mono) (use n le in simp_all)
  have "box_of_sorted xs = Inr \<lparr>bs_min = xs ! 0, bs_q1 = rank_value xs (n * (1/4)),
          bs_median = rank_value xs (n * (1/2)), bs_q3 = rank_value xs (n * (3/4)),
          bs_max = xs ! (length xs - 1)\<rparr>"
    by (simp add: box_of_sorted_def getitem_first getitem_last assms(2) q1 q2 q3 bind_def)
  then show ?thesis using a b c d by (simp add: r0 rn)
qed

text \<open>
  C2. On a non-empty sequence \<open>box_stats\<close> returns a record, and its fields satisfy
  \<open>min \<le> q1 \<le> median \<le> q3 \<le> max\<close>.
\<close>

theorem box_stats_ordered:
  assumes "vs \<noteq> []"
  shows "\<exists>b. box_stats vs = Inr b
            \<and> bs_min b \<le> bs_q1 b \<and> bs_q1 b \<le> bs_median b
            \<and> bs_median b \<le> bs_q3 b \<and> bs_q3 b \<le> bs_max b"
proof -
  have "sort vs \<noteq> []" using assms by (metis length_sort length_0_conv)
  with sorted_sort [of vs] show ?thesis
    unfolding box_stats_def Let_def by (rule box_of_sorted_ordered)
qed

theorem box_stats_ordered_witness:
  "[90, 70, 80 :: real] \<noteq> [] \<and> (\<exists>b. box_stats [90, 70, 80] = Inr b
            \<and> bs_min b \<le> bs_q1 b \<and> bs_q1 b \<le> bs_median b
            \<and> bs_median b \<le> bs_q3 b \<and> bs_q3 b \<le> bs_max b)"
  using box_stats_ordered [of "[90, 70, 80]"] by simp




subsection \<open>C9: box_stats leaves the caller's list alone\<close>

text \<open>
  C9. \<open>box_stats\<close> does not mutate its input: after the call every list that was on the
  heap before, the argument among them, holds the same elements in the same order; the
  sorted sequence is a new object. The result is the one computed from the argument's
  contents.
\<close>

theorem box_stats_heap_frame:
  assumes "vs < length h"
  shows "(\<forall>a < length h. snd (box_stats_heap vs h) ! a = h ! a)
       \<and> fst (box_stats_heap vs h) = box_stats (h ! vs)"
  by (simp add: box_stats_heap_def py_sorted_def box_stats_def nth_append)

theorem box_stats_heap_frame_witness:
  "snd (box_stats_heap 0 [[90, 70, 80]]) ! 0 = [90, 70, 80]
   \<and> fst (box_stats_heap 0 [[90, 70, 80]]) = box_stats [90, 70, 80]"
  using box_stats_heap_frame [of 0 "[[90, 70, 80]]"] by simp

subsection \<open>Pearson correlation: helper facts\<close>

lemma cs_step:
  fixes A B C x y :: real
  assumes "C\<^sup>2 \<le> A * B" and "0 \<le> A" and "0 \<le> B"
  shows "(C + x * y)\<^sup>2 \<le> (A + x\<^sup>2) * (B + y\<^sup>2)"
proof -
  have "4 * C\<^sup>2 * (x\<^sup>2 * y\<^sup>2) \<le> 4 * (A * B) * (x\<^sup>2 * y\<^sup>2)"
    using assms(1) by (intro mult_right_mono mult_left_mono) simp_all
  moreover have "0 \<le> (A * y\<^sup>2 - B * x\<^sup>2)\<^sup>2" by simp
  ultimately have "(2 * C * x * y)\<^sup>2 \<le> (A * y\<^sup>2 + B * x\<^sup>2)\<^sup>2"
    by (simp add: power2_eq_square algebra_simps)
  moreover have "0 \<le> A * y\<^sup>2 + B * x\<^sup>2" using assms(2,3) by simp
  ultimately have "2 * C * x * y \<le> A * y\<^sup>2 + B * x\<^sup>2" by (rule power2_le_imp_le)
  then show ?thesis using assms(1) by (simp add: power2_eq_square algebra_simps)
qed

lemma sumsq_nonneg: "0 \<le> (\<Sum>a\<leftarrow>xs. (f a :: real)\<^sup>2)"
  by (rule sum_list_nonneg) auto

lemma cauchy_schwarz_zip:
  fixes f g :: "real \<Rightarrow> real"
  shows "(\<Sum>(a, b)\<leftarrow>zip xs ys. f a * g b)\<^sup>2
         \<le> (\<Sum>a\<leftarrow>xs. (f a)\<^sup>2) * (\<Sum>b\<leftarrow>ys. (g b)\<^sup>2)"
proof (induction xs ys rule: list_induct2')
  case (4 x xs y ys)
  show ?case
    using cs_step [OF "4.IH" sumsq_nonneg sumsq_nonneg, of "f x" "g y"]
    by (simp add: add.commute)
qed (simp_all add: sumsq_nonneg)


lemma sq_dev_nonneg: "0 \<le> sq_dev xs"
  unfolding sq_dev_def by (rule sumsq_nonneg)

lemma pearson_value:
  assumes "x \<noteq> []" and "y \<noteq> []"
  shows "pearson x y =
           Inr (if sq_dev x = 0 \<or> sq_dev y = 0 then 0
                else co_dev x y / (sqrt (sq_dev x) * sqrt (sq_dev y)))"
proof -
  have nx: "\<not> sq_dev x < 0" and ny: "\<not> sq_dev y < 0"
    using sq_dev_nonneg [of x] sq_dev_nonneg [of y] by simp_all
  have mx: "mean x = Inr (avg x)" and my: "mean y = Inr (avg y)"
    using assms by (simp_all add: mean_def avg_def)
  have sx: "py_sqrt (\<Sum>a\<leftarrow>x. (a - avg x)\<^sup>2) = Inr (sqrt (sq_dev x))"
    using nx by (simp add: py_sqrt_def sq_dev_def)
  have sy: "py_sqrt (\<Sum>b\<leftarrow>y. (b - avg y)\<^sup>2) = Inr (sqrt (sq_dev y))"
    using ny by (simp add: py_sqrt_def sq_dev_def)
  show ?thesis
    unfolding pearson_def mx my Let_def bind_def sum.case sx sy co_dev_def [symmetric]
    by simp
qed

lemma pearson_empty:
  "x = [] \<or> y = [] \<Longrightarrow> pearson x y = Inl StatisticsError"
  by (auto simp: pearson_def mean_def bind_def)

lemma co_dev_commute: "co_dev x y = co_dev y x"
proof -
  have "(\<Sum>(a, b)\<leftarrow>zip xs ys. f a * g b) = (\<Sum>(b, a)\<leftarrow>zip ys xs. g b * f a)"
    for xs ys :: "real list" and f g :: "real \<Rightarrow> real"
    by (induction xs ys rule: list_induct2') simp_all
  then show ?thesis unfolding co_dev_def .
qed

lemma co_dev_self: "co_dev x x = sq_dev x"
proof -
  have "(\<Sum>(a, b)\<leftarrow>zip xs xs. f a * f b) = (\<Sum>a\<leftarrow>xs. (f a)\<^sup>2)"
    for xs :: "real list" and f :: "real \<Rightarrow> real"
    by (induction xs) (simp_all add: power2_eq_square)
  then show ?thesis unfolding co_dev_def sq_dev_def .
qed

lemma co_dev_bound: "(co_dev x y)\<^sup>2 \<le> sq_dev x * sq_dev y"
  unfolding co_dev_def sq_dev_def by (rule cauchy_schwarz_zip)

lemma sum_list_const: "\<forall>a\<in>set xs. a = c \<Longrightarrow> sum_list xs = real (length xs) * c"
  by (induction xs) (simp_all add: algebra_simps)

lemma constant_sq_dev:
  assumes "\<forall>a\<in>set xs. \<forall>b\<in>set xs. a = b"
  shows "sq_dev xs = 0"
proof (cases xs)
  case Nil
  then show ?thesis by (simp add: sq_dev_def)
next
  case (Cons c cs)
  then have all: "\<forall>a\<in>set xs. a = c" using assms by simp
  have "avg xs = c" using sum_list_const [OF all] Cons by (simp add: avg_def)
  then have z: "\<forall>a\<in>set xs. a - avg xs = 0" using all by simp
  have "\<forall>a\<in>set ys. f a = 0 \<Longrightarrow> (\<Sum>a\<leftarrow>ys. (f a :: real)\<^sup>2) = 0" for f and ys :: "real list"
    by (induction ys) simp_all
  from this [of xs "\<lambda>a. a - avg xs"] z show ?thesis unfolding sq_dev_def by blast
qed

lemma sq_dev_zero_constant:
  assumes "sq_dev xs = 0"
  shows "\<forall>a\<in>set xs. a = avg xs"
proof -
  have "(\<Sum>a\<leftarrow>xs. (f a :: real)\<^sup>2) = 0 \<Longrightarrow> \<forall>a\<in>set xs. f a = 0" for f
    by (induction xs) (auto simp: add_nonneg_eq_0_iff sumsq_nonneg)
  from this [of "\<lambda>a. a - avg xs"] assms show ?thesis by (simp add: sq_dev_def)
qed


lemma varying_sq_dev:
  assumes "\<exists>a\<in>set xs. \<exists>b\<in>set xs. a \<noteq> b"
  shows "0 < sq_dev xs"
proof -
  have "sq_dev xs \<noteq> 0"
  proof
    assume "sq_dev xs = 0"
    then have "\<forall>a\<in>set xs. a = avg xs" by (rule sq_dev_zero_constant)
    with assms show False by metis
  qed
  with sq_dev_nonneg [of xs] show ?thesis by simp
qed

subsection \<open>C3: zero variance gives 0\<close>

text \<open>
  C3. For sequences of equal length \<open>\<ge> 1\<close> of which at least one is constant (all its
  values equal, so that its sum of squared deviations is 0), \<open>pearson\<close> returns exactly 0:
  it neither raises nor divides by zero.
\<close>

theorem pearson_zero_variance:
  assumes "length x = length y" and "x \<noteq> []"
    and "(\<forall>a\<in>set x. \<forall>b\<in>set x. a = b) \<or> (\<forall>a\<in>set y. \<forall>b\<in>set y. a = b)"
  shows "pearson x y = Inr 0"
proof -
  have "y \<noteq> []" using assms(1,2) by auto
  moreover have "sq_dev x = 0 \<or> sq_dev y = 0"
    using assms(3) constant_sq_dev by blast
  ultimately show ?thesis using assms(2) by (auto simp: pearson_value)
qed

theorem pearson_zero_variance_witness:
  "pearson [5, 5, 5] [1, 2, 3] = Inr 0 \<and> pearson [1, 2, 3] [5, 5, 5] = Inr 0"
  using pearson_zero_variance [of "[5, 5, 5]" "[1, 2, 3]"]
    pearson_zero_variance [of "[1, 2, 3]" "[5, 5, 5]"]
  by simp

subsection \<open>C4: the coefficient lies in [-1, 1]\<close>

text \<open>
  C4. For sequences of equal length \<open>\<ge> 1\<close> that both vary (neither is constant),
  \<open>pearson\<close> returns a value between \<open>-1\<close> and \<open>1\<close>.
\<close>

theorem pearson_bounded:
  assumes "length x = length y" and "x \<noteq> []"
    and "\<exists>a\<in>set x. \<exists>b\<in>set x. a \<noteq> b" and "\<exists>a\<in>set y. \<exists>b\<in>set y. a \<noteq> b"
  shows "\<exists>r. pearson x y = Inr r \<and> - 1 \<le> r \<and> r \<le> 1"
proof -
  have y: "y \<noteq> []" using assms(1,2) by auto
  have px: "0 < sq_dev x" and py: "0 < sq_dev y"
    using assms(3,4) by (simp_all add: varying_sq_dev)
  define d where "d = sqrt (sq_dev x) * sqrt (sq_dev y)"
  have d: "0 < d" using px py by (simp add: d_def)
  have "\<bar>co_dev x y\<bar> = sqrt ((co_dev x y)\<^sup>2)" by simp
  also have "\<dots> \<le> sqrt (sq_dev x * sq_dev y)"
    using co_dev_bound [of x y] by (simp only: real_sqrt_le_iff)
  also have "\<dots> = d" by (simp add: d_def real_sqrt_mult)
  finally have "\<bar>co_dev x y / d\<bar> \<le> 1" using d by simp
  then have "- 1 \<le> co_dev x y / d \<and> co_dev x y / d \<le> 1" by linarith
  moreover have "pearson x y = Inr (co_dev x y / d)"
    using px py by (simp add: pearson_value [OF assms(2) y] d_def)
  ultimately show ?thesis by simp
qed

theorem pearson_bounded_witness:
  "\<exists>r. pearson [95, 85, 90] [90, 70, 80] = Inr r \<and> - 1 \<le> r \<and> r \<le> 1"
proof -
  have x: "\<exists>a\<in>set [95, 85, 90 :: real]. \<exists>b\<in>set [95, 85, 90]. a \<noteq> b"
    by (rule bexI [of _ 95], rule bexI [of _ 85]) simp_all
  have y: "\<exists>a\<in>set [90, 70, 80 :: real]. \<exists>b\<in>set [90, 70, 80]. a \<noteq> b"
    by (rule bexI [of _ 90], rule bexI [of _ 70]) simp_all
  show ?thesis by (rule pearson_bounded [OF _ _ x y]) simp_all
qed

lemma pearson_commute: "pearson x y = pearson y x"
proof (cases "x = [] \<or> y = []")
  case True
  then show ?thesis by (auto simp: pearson_empty)
next
  case False
  then show ?thesis by (auto simp: pearson_value co_dev_commute mult.commute)
qed

lemma pearson_self:
  assumes "\<exists>a\<in>set x. \<exists>b\<in>set x. a \<noteq> b"
  shows "pearson x x = Inr 1"
proof -
  have x: "x \<noteq> []" using assms by auto
  have "0 < sq_dev x" using assms by (rule varying_sq_dev)
  then show ?thesis by (simp add: pearson_value [OF x x] co_dev_self)
qed


subsection \<open>C5: symmetry and the unit diagonal\<close>

lemma traverse_total: "traverse (\<lambda>x. Inr (h x)) xs = Inr (map h xs)"
  by (induction xs) (simp_all add: bind_def)

lemma traverse_cong: "(\<And>x. x \<in> set xs \<Longrightarrow> f x = g x) \<Longrightarrow> traverse f xs = traverse g xs"
  by (induction xs) simp_all

lemma dict_get_map: "k \<in> set ks \<Longrightarrow> dict_get (map (\<lambda>k. (k, h k)) ks) k = Inr (h k)"
  by (induction ks) (auto simp: dict_get_def)

lemma all_fields: "c \<in> set (Attendance # SUBJECT_COLUMNS)"
  by (cases c) (simp_all add: SUBJECT_COLUMNS_def)

lemma correlation_matrix_value:
  assumes "rows \<noteq> []"
  shows "\<exists>m. correlation_matrix rows = Inr m
           \<and> (\<forall>a b. matrix_entry m a b
                      = pearson (map (\<lambda>r. cell r a) rows) (map (\<lambda>r. cell r b) rows))"
proof -
  define rho where "rho a b = (let x = map (\<lambda>r. cell r a) rows; y = map (\<lambda>r. cell r b) rows in
      if sq_dev x = 0 \<or> sq_dev y = 0 then 0
      else co_dev x y / (sqrt (sq_dev x) * sqrt (sq_dev y)))" for a b
  have p: "pearson (map (\<lambda>r. cell r a) rows) (map (\<lambda>r. cell r b) rows) = Inr (rho a b)" for a b
    using assms by (simp add: pearson_value rho_def Let_def)
  define m where "m = map (\<lambda>a. (a, map (\<lambda>b. (b, rho a b)) (Attendance # SUBJECT_COLUMNS)))
                          (Attendance # SUBJECT_COLUMNS)"
  have "correlation_matrix rows = Inr m"
    unfolding correlation_matrix_def Let_def p m_def
    by (simp only: bind_def sum.case traverse_total)
  moreover have "matrix_entry m a b = Inr (rho a b)" for a b
    unfolding matrix_entry_def m_def
    by (simp only: dict_get_map [OF all_fields] bind_def sum.case)
  ultimately show ?thesis by (simp add: p)
qed

text \<open>
  C5. \<open>pearson x y = pearson y x\<close> for all sequences, and \<open>pearson x x = 1\<close> when \<open>x\<close> is
  not constant. So on a non-empty dataset the heatmap's matrix over attendance and the
  four subjects is built without error, is symmetric, and has 1 on the diagonal at every
  field whose values vary.
\<close>

theorem pearson_symmetric_matrix:
  "pearson x y = pearson y x
   \<and> ((\<exists>a\<in>set x. \<exists>b\<in>set x. a \<noteq> b) \<longrightarrow> pearson x x = Inr 1)
   \<and> (rows \<noteq> [] \<longrightarrow>
        (\<exists>m. correlation_matrix rows = Inr m
            \<and> (\<forall>a b. matrix_entry m a b = matrix_entry m b a)
            \<and> (\<forall>a. (\<exists>r\<in>set rows. \<exists>r'\<in>set rows. cell r a \<noteq> cell r' a)
                     \<longrightarrow> matrix_entry m a a = Inr 1)))"
proof (intro conjI impI)
  show "pearson x y = pearson y x" by (rule pearson_commute)
  show "pearson x x = Inr 1" if "\<exists>a\<in>set x. \<exists>b\<in>set x. a \<noteq> b"
    using that by (rule pearson_self)
  show "\<exists>m. correlation_matrix rows = Inr m
            \<and> (\<forall>a b. matrix_entry m a b = matrix_entry m b a)
            \<and> (\<forall>a. (\<exists>r\<in>set rows. \<exists>r'\<in>set rows. cell r a \<noteq> cell r' a)
                     \<longrightarrow> matrix_entry m a a = Inr 1)" if "rows \<noteq> []"
  proof -
    from correlation_matrix_value [OF that] obtain m where
      m: "correlation_matrix rows = Inr m"
      and e: "\<And>a b. matrix_entry m a b
                = pearson (map (\<lambda>r. cell r a) rows) (map (\<lambda>r. cell r b) rows)"
      by blast
    have "matrix_entry m a b = matrix_entry m b a" for a b
      by (simp only: e pearson_commute [of "map (\<lambda>r. cell r a) rows"])
    moreover have "matrix_entry m a a = Inr 1"
      if "\<exists>r\<in>set rows. \<exists>r'\<in>set rows. cell r a \<noteq> cell r' a" for a
    proof -
      have "\<exists>u\<in>set (map (\<lambda>r. cell r a) rows). \<exists>v\<in>set (map (\<lambda>r. cell r a) rows). u \<noteq> v"
        using that by auto
      then show ?thesis unfolding e by (rule pearson_self)
    qed
    ultimately show ?thesis using m by blast
  qed
qed

theorem pearson_symmetric_matrix_witness:
  "pearson [1, 2] [1, 2] = Inr 1
   \<and> (\<exists>m. correlation_matrix rows3 = Inr m
         \<and> matrix_entry m Attendance Math = matrix_entry m Math Attendance
         \<and> matrix_entry m Math Math = Inr 1)"
proof -
  have x: "\<exists>a\<in>set [1, 2 :: real]. \<exists>b\<in>set [1, 2]. a \<noteq> b"
    by (rule bexI [of _ 1], rule bexI [of _ 2]) simp_all
  have r: "rows3 \<noteq> []" by (simp add: rows3_def)
  have v: "\<exists>r\<in>set rows3. \<exists>r'\<in>set rows3. cell r Math \<noteq> cell r' Math"
    by (rule bexI [of _ "rows3 ! 0"], rule bexI [of _ "rows3 ! 1"]) (simp_all add: rows3_def)
  from pearson_symmetric_matrix [of "[1, 2]" "[1, 2]" rows3] x r v
  show ?thesis by blast
qed

subsection \<open>C10: sequences of unequal length\<close>







subsection \<open>C6: group means weighted by group sizes\<close>

lemma mean_nonempty: "xs \<noteq> [] \<Longrightarrow> mean xs = Inr (avg xs)"
  by (simp add: mean_def avg_def)

lemma group_values_filter:
  "group_values rows g s = map (\<lambda>r. cell r s) (filter (\<lambda>r. gender r = g) rows)"
  unfolding group_values_def by (induction rows) simp_all

lemma subject_means_value:
  assumes "\<exists>r\<in>set rows. gender r = g"
  shows "traverse (\<lambda>subject. bind (mean (group_values rows g subject)) (\<lambda>v. Inr (subject, v)))
           SUBJECT_COLUMNS
         = Inr (map (\<lambda>s. (s, avg (group_values rows g s))) SUBJECT_COLUMNS)"
proof -
  have ne: "group_values rows g s \<noteq> []" for s
    using assms by (auto simp: group_values_filter filter_empty_conv)
  have "traverse (\<lambda>subject. bind (mean (group_values rows g subject)) (\<lambda>v. Inr (subject, v)))
           SUBJECT_COLUMNS
        = traverse (\<lambda>s. Inr (s, avg (group_values rows g s))) SUBJECT_COLUMNS"
    by (rule traverse_cong) (simp add: mean_nonempty [OF ne] bind_def)
  then show ?thesis by (simp only: traverse_total)
qed

lemma subject_means_error:
  assumes "\<forall>r\<in>set rows. gender r \<noteq> g"
  shows "traverse (\<lambda>subject. bind (mean (group_values rows g subject)) (\<lambda>v. Inr (subject, v)))
           SUBJECT_COLUMNS
         = Inl StatisticsError"
proof -
  have "group_values rows g Math = []"
    using assms by (simp add: group_values_filter filter_empty_conv)
  then show ?thesis by (simp add: SUBJECT_COLUMNS_def mean_def bind_def)
qed

lemma group_averages_value:
  assumes "\<forall>g\<in>set genders. \<exists>r\<in>set rows. gender r = g"
  shows "group_averages genders rows =
           Inr (map (\<lambda>g. (g, map (\<lambda>s. (s, avg (group_values rows g s))) SUBJECT_COLUMNS)) genders)"
proof -
  have "group_averages genders rows
        = traverse (\<lambda>g. Inr (g, map (\<lambda>s. (s, avg (group_values rows g s))) SUBJECT_COLUMNS)) genders"
    unfolding group_averages_def
    by (rule traverse_cong) (simp only: subject_means_value assms, simp add: bind_def)
  then show ?thesis by (simp only: traverse_total)
qed

lemma sum_group_values:
  assumes "distinct genders" and "\<forall>r\<in>set rows. gender r \<in> set genders"
  shows "(\<Sum>g\<leftarrow>genders. sum_list (group_values rows g s)) = (\<Sum>r\<leftarrow>rows. cell r s)"
  using assms(2)
proof (induction rows)
  case Nil
  then show ?case by (simp add: group_values_filter)
next
  case (Cons r rows)
  have g: "gender r \<in> set genders" using Cons.prems by simp
  have "(\<Sum>g\<leftarrow>genders. sum_list (group_values (r # rows) g s))
        = (\<Sum>g\<leftarrow>genders. (if gender r = g then cell r s else 0) + sum_list (group_values rows g s))"
    by (rule arg_cong [where f = sum_list], rule map_cong) (simp_all add: group_values_filter)
  also have "\<dots> = (\<Sum>g\<leftarrow>genders. if gender r = g then cell r s else 0)
                   + (\<Sum>g\<leftarrow>genders. sum_list (group_values rows g s))"
    by (simp add: sum_list_addf)
  also have "(\<Sum>g\<leftarrow>genders. if gender r = g then cell r s else 0) = cell r s"
    using assms(1) g by (simp add: sum_list_distinct_conv_sum_set sum.delta')
  finally show ?case using Cons by simp
qed


text \<open>
  C6. Let the rows be partitioned by distinct group labels into non-empty groups. Then the
  grouped averages are computed without error, each entry is the arithmetic mean of the
  field over the rows of its group, and for every field the sum over the groups of
  group size times group mean equals the sum of the field over all rows.
\<close>

theorem group_means_weighted_sum:
  assumes "distinct genders"
    and "\<forall>r\<in>set rows. gender r \<in> set genders"
    and "\<forall>g\<in>set genders. \<exists>r\<in>set rows. gender r = g"
  shows "\<exists>m. group_averages genders rows
               = Inr (map (\<lambda>g. (g, map (\<lambda>s. (s, m g s)) SUBJECT_COLUMNS)) genders)
           \<and> (\<forall>g\<in>set genders. \<forall>s. mean (group_values rows g s) = Inr (m g s))
           \<and> (\<forall>s. (\<Sum>g\<leftarrow>genders. real (length (group_values rows g s)) * m g s)
                    = (\<Sum>r\<leftarrow>rows. cell r s))"
proof -
  define m where "m g s = avg (group_values rows g s)" for g s
  have ne: "group_values rows g s \<noteq> []" if "g \<in> set genders" for g s
    using assms(3) that by (auto simp: group_values_filter filter_empty_conv)
  have a: "group_averages genders rows
             = Inr (map (\<lambda>g. (g, map (\<lambda>s. (s, m g s)) SUBJECT_COLUMNS)) genders)"
    unfolding m_def by (rule group_averages_value [OF assms(3)])
  have b: "mean (group_values rows g s) = Inr (m g s)" if "g \<in> set genders" for g s
    unfolding m_def by (rule mean_nonempty [OF ne [OF that]])
  have c: "(\<Sum>g\<leftarrow>genders. real (length (group_values rows g s)) * m g s)
            = (\<Sum>r\<leftarrow>rows. cell r s)" for s
  proof -
    have "real (length (group_values rows g s)) * m g s = sum_list (group_values rows g s)"
      if "g \<in> set genders" for g
      using ne [OF that, of s] by (simp add: m_def avg_def)
    then have "(\<Sum>g\<leftarrow>genders. real (length (group_values rows g s)) * m g s)
               = (\<Sum>g\<leftarrow>genders. sum_list (group_values rows g s))"
      by (intro arg_cong [where f = sum_list] map_cong) simp_all
    then show ?thesis by (simp only: sum_group_values [OF assms(1,2)])
  qed
  show ?thesis using a b c by blast
qed

theorem group_means_weighted_sum_witness:
  "\<exists>m. averages rows3
          = Inr (map (\<lambda>g. (g, map (\<lambda>s. (s, m g s)) SUBJECT_COLUMNS)) [''Female'', ''Male''])
      \<and> mean (group_values rows3 ''Female'' Math) = Inr (m ''Female'' Math)
      \<and> (\<Sum>g\<leftarrow>[''Female'', ''Male'']. real (length (group_values rows3 g Math)) * m g Math)
         = (\<Sum>r\<leftarrow>rows3. cell r Math)"
proof -
  have d: "distinct [''Female'', ''Male'']" by simp
  have c: "\<forall>r\<in>set rows3. gender r \<in> set [''Female'', ''Male'']" by (simp add: rows3_def)
  have n: "\<forall>g\<in>set [''Female'', ''Male'']. \<exists>r\<in>set rows3. gender r = g" by (simp add: rows3_def)
  from group_means_weighted_sum [OF d c n] show ?thesis
    unfolding averages_def Let_def by auto
qed

subsection \<open>C7: a group without rows is an error\<close>

lemma averages_rows3:
  "averages rows3 =
     Inr [(''Female'', [(Math, 85), (Science, 75), (English, 65), (History, 55)]),
          (''Male'', [(Math, 70), (Science, 60), (English, 50), (History, 40)])]"
  by (simp add: averages_def group_averages_def group_values_def SUBJECT_COLUMNS_def rows3_def
      mean_def bind_def)

text \<open>
  C7. If no row has the label \<open>Female\<close>, or no row has the label \<open>Male\<close>, computing the
  grouped averages fails with the StatisticsError of a mean over no data; no value is
  produced for the group.
\<close>

theorem averages_empty_group:
  assumes "(\<forall>r\<in>set rows. gender r \<noteq> ''Female'') \<or> (\<forall>r\<in>set rows. gender r \<noteq> ''Male'')"
  shows "averages rows = Inl StatisticsError"
proof (cases "\<forall>r\<in>set rows. gender r \<noteq> ''Female''")
  case True
  show ?thesis
    unfolding averages_def Let_def group_averages_def traverse.simps
    by (simp only: subject_means_error [OF True], simp add: bind_def)
next
  case False
  then have f: "\<exists>r\<in>set rows. gender r = ''Female''" by simp
  from False assms have m: "\<forall>r\<in>set rows. gender r \<noteq> ''Male''" by blast
  show ?thesis
    unfolding averages_def Let_def group_averages_def traverse.simps
    by (simp only: subject_means_value [OF f] subject_means_error [OF m], simp add: bind_def)
qed

theorem averages_empty_group_witness:
  "averages [\<lparr>student_id = ''S2'', gender = ''Male'', attendance = 85,
              math = 70, science = 60, english = 50, history = 40\<rparr>] = Inl StatisticsError
   \<and> averages [\<lparr>student_id = ''S1'', gender = ''Female'', attendance = 95,
              math = 90, science = 80, english = 70, history = 60\<rparr>] = Inl StatisticsError"
  using averages_empty_group [of "[\<lparr>student_id = ''S2'', gender = ''Male'', attendance = 85,
              math = 70, science = 60, english = 50, history = 40\<rparr>]"]
    averages_empty_group [of "[\<lparr>student_id = ''S1'', gender = ''Female'', attendance = 95,
              math = 90, science = 80, english = 70, history = 60\<rparr>]"]
  by simp

subsection \<open>C8: the elements of one box\<close>










lemma boxplot_subjects_parts:
  "boxplot_subjects rows =
     bind (boxplot_subject 0 Math rows) (\<lambda>a.
     bind (boxplot_subject 1 Science rows) (\<lambda>b.
     bind (boxplot_subject 2 English rows) (\<lambda>c.
     bind (boxplot_subject 3 History rows) (\<lambda>d. Inr (a @ b @ c @ d)))))"
proof -
  have z: "zip [0 ..< length SUBJECT_COLUMNS] SUBJECT_COLUMNS
           = [(0, Math), (1, Science), (2, English), (3, History)]"
    by (simp add: SUBJECT_COLUMNS_def upt_conv_Cons eval_nat_numeral)
  show ?thesis
    unfolding boxplot_subjects_def z
    by (simp add: bind_def split: sum.splits)
qed

end
